theory Spec2Isabelle
  imports Main "HOL-Library.Sublist"
begin

section \<open>Text primitives\<close>

text \<open>
  Python \<open>str\<close> values are modelled as \<open>string\<close>, one \<open>char\<close> per code point; the
  model therefore covers texts whose code points lie in U+0000..U+00FF.  The predicates
  below are Python's character classes restricted to that range.
\<close>

definition NL :: char where
  "NL = CHR 0x0A"

definition is_space :: "char \<Rightarrow> bool" where
  \<comment> \<open>\<open>str.isspace\<close> / regex \<open>\s\<close> on a \<open>str\<close> pattern\<close>
  "is_space c =
     (let n = (of_char c :: nat)
      in (9 \<le> n \<and> n \<le> 13) \<or> (28 \<le> n \<and> n \<le> 32) \<or> n = 133 \<or> n = 160)"

definition is_digit :: "char \<Rightarrow> bool" where
  \<comment> \<open>regex \<open>\d\<close>: the decimal digits\<close>
  "is_digit c = (let n = (of_char c :: nat) in 48 \<le> n \<and> n \<le> 57)"

definition lower :: "char \<Rightarrow> char" where
  "lower c = (let n = (of_char c :: nat) in if 65 \<le> n \<and> n \<le> 90 then char_of (n + 32) else c)"

definition upper :: "char \<Rightarrow> char" where
  "upper c = (let n = (of_char c :: nat) in if 97 \<le> n \<and> n \<le> 122 then char_of (n - 32) else c)"

definition lstrip :: "string \<Rightarrow> string" where
  "lstrip s = dropWhile is_space s"

definition rstrip :: "string \<Rightarrow> string" where
  "rstrip s = rev (dropWhile is_space (rev s))"

definition strip :: "string \<Rightarrow> string" where
  \<comment> \<open>\<open>str.strip()\<close> with no argument\<close>
  "strip s = rstrip (lstrip s)"

fun contains :: "string \<Rightarrow> string \<Rightarrow> bool" where
  \<comment> \<open>\<open>pat in s\<close>\<close>
  "contains pat [] = (pat = [])"
| "contains pat (c # cs) = (prefix pat (c # cs) \<or> contains pat cs)"

definition contains_ci :: "string \<Rightarrow> string \<Rightarrow> bool" where
  \<comment> \<open>substring test under \<open>re.IGNORECASE\<close>\<close>
  "contains_ci pat s = contains (map lower pat) (map lower s)"

fun find_after :: "string \<Rightarrow> string \<Rightarrow> string option" where
  \<comment> \<open>what follows the first occurrence of \<open>pat\<close> in the text, if there is one\<close>
  "find_after pat [] = (if pat = [] then Some [] else None)"
| "find_after pat (c # cs) =
     (if prefix pat (c # cs) then Some (drop (length pat) (c # cs)) else find_after pat cs)"

fun split_lines :: "string \<Rightarrow> string list" where
  \<comment> \<open>the lines between which \<open>^\<close> and \<open>$\<close> match under \<open>re.MULTILINE\<close>\<close>
  "split_lines [] = [[]]"
| "split_lines (c # cs) =
     (if c = NL then [] # split_lines cs
      else (case split_lines cs of [] \<Rightarrow> [[c]] | l # ls \<Rightarrow> (c # l) # ls))"

fun join_lines :: "string list \<Rightarrow> string" where
  "join_lines [] = []"
| "join_lines [l] = l"
| "join_lines (l # ls) = l @ NL # join_lines ls"

definition sub_lines :: "(string \<Rightarrow> bool) \<Rightarrow> string \<Rightarrow> string" where
  \<comment> \<open>\<open>re.sub\<close> of a pattern that matches exactly the whole lines satisfying \<open>P\<close>,
      with the empty replacement\<close>
  "sub_lines P text = join_lines (map (\<lambda>l. if P l then [] else l) (split_lines text))"

section \<open>Response cleaner\<close>

lemma find_after_length: "find_after pat s = Some r \<Longrightarrow> length r \<le> length s"
  by (induction s) (auto split: if_splits)

function remove_think :: "string \<Rightarrow> string" where
  \<comment> \<open>\<open>re.sub(r'<think>.*?</think>', '', text, flags=re.DOTALL)\<close>\<close>
  "remove_think [] = []"
| "remove_think (c # cs) =
     (if prefix ''<think>'' (c # cs) then
        (case find_after ''</think>'' (drop 7 (c # cs)) of
           Some rest \<Rightarrow> remove_think rest
         | None \<Rightarrow> c # remove_think cs)
      else c # remove_think cs)"
  by pat_completeness auto
termination
proof (relation "measure length")
  fix c cs rest
  assume "find_after ''</think>'' (drop 7 (c # cs)) = Some rest"
  then have "length rest \<le> length (drop 7 (c # cs))"
    by (rule find_after_length)
  then show "(rest, c # cs) \<in> measure length" by simp
qed simp_all

definition ai_prefix :: "string \<Rightarrow> bool" where
  \<comment> \<open>\<open>^(Let me|I\'ll|I will|Here\'s|Here is).*$\<close>\<close>
  "ai_prefix l =
     (prefix ''Let me'' l \<or> prefix (''I'' @ [CHR 0x27] @ ''ll'') l \<or> prefix ''I will'' l
      \<or> prefix (''Here'' @ [CHR 0x27] @ ''s'') l \<or> prefix ''Here is'' l)"

definition last_newline_end :: "string \<Rightarrow> nat" where
  \<comment> \<open>the index just past the last newline of \<open>ws\<close>\<close>
  "last_newline_end ws = length ws - length (takeWhile (\<lambda>c. c \<noteq> NL) (rev ws))"

function collapse_blank :: "string \<Rightarrow> string" where
  \<comment> \<open>\<open>re.sub(r'\n\s*\n', '\n\n', text)\<close>: at a newline, the greedy \<open>\s*\<close> runs over
      the whole whitespace run and backs up to its last newline\<close>
  "collapse_blank [] = []"
| "collapse_blank (c # cs) =
     (if c = NL \<and> NL \<in> set (takeWhile is_space cs) then
        NL # NL # collapse_blank (drop (last_newline_end (takeWhile is_space cs)) cs)
      else c # collapse_blank cs)"
  by pat_completeness auto
termination
  by (relation "measure length") simp_all

definition clean_email_body :: "string \<Rightarrow> string" where
  "clean_email_body text0 =
     (let text1 = remove_think text0;
          text2 = sub_lines ai_prefix text1;
          text3 = sub_lines (contains_ci ''thinking process'') text2;
          text4 = sub_lines (contains_ci ''thought process'') text3;
          text5 = sub_lines (prefix ''**Subject:**'') text4;
          text6 = sub_lines (prefix ''**Category:**'') text5;
          text7 = collapse_blank text6
      in strip text7)"

definition remove_artifacts :: "string \<Rightarrow> string" where
  \<comment> \<open>the six removing substitutions of \<open>clean_email_body\<close>, before the whitespace steps\<close>
  "remove_artifacts text0 =
     (let text1 = remove_think text0;
          text2 = sub_lines ai_prefix text1;
          text3 = sub_lines (contains_ci ''thinking process'') text2;
          text4 = sub_lines (contains_ci ''thought process'') text3;
          text5 = sub_lines (prefix ''**Subject:**'') text4
      in sub_lines (prefix ''**Category:**'') text5)"


section \<open>Generation client\<close>

datatype py_error = ValueError | KeyError string | MessageError string

text \<open>
  The completion endpoint is a parameter: for a prompt it either raises (\<open>Inl\<close> with the
  text of the exception) or answers with the text of \<open>response['response']\<close>.
\<close>

type_synonym completion_service = "string \<Rightarrow> string + string"

fun find_sep :: "string \<Rightarrow> string \<Rightarrow> (string \<times> string) option" where
  \<comment> \<open>the text before and after the first occurrence of \<open>sep\<close>\<close>
  "find_sep sep [] = (if sep = [] then Some ([], []) else None)"
| "find_sep sep (c # cs) =
     (if prefix sep (c # cs) then Some ([], drop (length sep) (c # cs))
      else (case find_sep sep cs of None \<Rightarrow> None | Some (b, a) \<Rightarrow> Some (c # b, a)))"

lemma find_sep_length: "find_sep sep s = Some (b, a) \<Longrightarrow> length a + length sep \<le> length s"
  by (induction s arbitrary: b) (auto split: if_splits option.splits dest: prefix_length_le)

function split_sep :: "string \<Rightarrow> string \<Rightarrow> string list" where
  "split_sep sep s =
     (if sep = [] then [s]
      else (case find_sep sep s of None \<Rightarrow> [s] | Some (b, a) \<Rightarrow> b # split_sep sep a))"
  by pat_completeness auto
termination
proof (relation "measure (\<lambda>(sep, s). length s)")
  fix sep s x b a
  assume "sep \<noteq> []" and "find_sep sep s = Some x" and "(b, a) = x"
  then have "length a + length sep \<le> length s" and "sep \<noteq> []"
    by (auto dest: find_sep_length)
  then show "((sep, a), (sep, s)) \<in> measure (\<lambda>(sep, s). length s)"
    by (cases sep) auto
qed simp

definition py_split :: "string \<Rightarrow> string \<Rightarrow> py_error + string list" where
  \<comment> \<open>\<open>s.split(sep)\<close>, which raises on the empty separator\<close>
  "py_split s sep = (if sep = [] then Inl ValueError else Inr (split_sep sep s))"

definition generate :: "completion_service \<Rightarrow> string \<Rightarrow> string" where
  \<comment> \<open>\<open>_generate\<close>: every exception inside the \<open>try\<close> block ends in \<open>return ""\<close>\<close>
  "generate svc prompt =
     (case svc prompt of
        Inl e \<Rightarrow> []
      | Inr response \<Rightarrow>
          if contains prompt response then
            (case py_split response prompt of
               Inl e \<Rightarrow> []
             | Inr pieces \<Rightarrow> strip (last pieces))
          else strip response)"

definition categorize_prompt :: "string \<Rightarrow> string \<Rightarrow> string \<Rightarrow> string" where
  "categorize_prompt subject body sender = join_lines
    [''You are an expert email assistant. Analyze the following email and:'',
     ''1. Categorize it as one of: URGENT, IMPORTANT, or LOW_PRIORITY.'',
     ''2. Give a confidence score (0-100) for your choice.'',
     ''3. Briefly explain your reasoning.'',
     [],
     ''Criteria:'',
     ''- URGENT: Requires immediate action, has severe consequences if delayed, or uses urgent language.'',
     ''- IMPORTANT: Needs action but not immediately, or is from a key stakeholder, but not an emergency.'',
     ''- LOW_PRIORITY: Can be handled later, is informational, or not time-sensitive.'',
     [],
     ''Email Subject: '' @ subject,
     ''Email Body: '' @ body,
     ''Sender: '' @ sender,
     [],
     ''Respond in this format:'',
     ''Category: <category>'',
     ''Confidence: <number>'',
     ''Rationale: <short explanation>'']"

definition reply_prompt :: "string \<Rightarrow> string \<Rightarrow> string \<Rightarrow> string" where
  \<comment> \<open>the body of the email is an argument of \<open>generate_reply\<close> that its prompt does not use\<close>
  "reply_prompt email_subject email_body category = join_lines
    [''Generate a professional email reply for:'',
     ''        Subject: '' @ email_subject,
     ''        Category: '' @ category,
     ''        '',
     ''        Format the response as a clean email with:'',
     ''        - Subject line'',
     ''        - Professional greeting'',
     ''        - Clear body'',
     ''        - Professional signature'',
     ''        '',
     ''        Do not include any thinking process or <think> tags.'',
     ''        '']"

definition digest_prompt :: "string \<Rightarrow> string" where
  \<comment> \<open>\<open>stats_json\<close> is the text \<open>json.dumps(email_stats, indent=2)\<close>\<close>
  "digest_prompt stats_json = join_lines
    [''Generate a daily email digest report based on these statistics:'',
     ''        '' @ stats_json,
     ''        '',
     ''        Include:'',
     ''        - Summary of emails received'',
     ''        - Categorization breakdown'',
     ''        - Key action items'',
     ''        - Reply status'',
     ''        '',
     ''        Format as a clear, concise report:'',
     ''        '']"

definition draft_prompt :: "string \<Rightarrow> string \<Rightarrow> string \<Rightarrow> string" where
  "draft_prompt subject message category = join_lines
    [''Write ONLY the email draft, no explanations or reasoning:'',
     [],
     ''Subject: '' @ subject,
     ''Message: '' @ message,
     ''Category: '' @ category,
     [],
     ''Output format:'',
     ''Dear [recipient'' @ [CHR 0x27] @ ''s name],'',
     [],
     ''[body]'',
     [],
     ''Best regards,'',
     ''[your name]'']"

definition generate_reply :: "completion_service \<Rightarrow> string \<Rightarrow> string \<Rightarrow> string \<Rightarrow> string" where
  "generate_reply svc email_subject email_body category =
     generate svc (reply_prompt email_subject email_body category)"

definition generate_digest :: "completion_service \<Rightarrow> string \<Rightarrow> string" where
  "generate_digest svc stats_json = generate svc (digest_prompt stats_json)"

definition generate_draft_email :: "completion_service \<Rightarrow> string \<Rightarrow> string \<Rightarrow> string \<Rightarrow> string" where
  "generate_draft_email svc subject message category =
     generate svc (draft_prompt subject message category)"

subsection \<open>Parsing the classification\<close>

fun re_search :: "(string \<Rightarrow> 'a option) \<Rightarrow> string \<Rightarrow> 'a option" where
  \<comment> \<open>\<open>re.search\<close>: the match at the leftmost position where the pattern matches;
      the argument is the pattern anchored at the start of its input\<close>
  "re_search m [] = m []"
| "re_search m (c # cs) = (case m (c # cs) of Some g \<Rightarrow> Some g | None \<Rightarrow> re_search m cs)"

definition ci_prefix :: "string \<Rightarrow> string \<Rightarrow> bool" where
  \<comment> \<open>a literal under \<open>re.IGNORECASE\<close>\<close>
  "ci_prefix pat s = prefix (map lower pat) (map lower s)"

definition match_category :: "string \<Rightarrow> string option" where
  \<comment> \<open>\<open>Category:\s*(URGENT|IMPORTANT|LOW_PRIORITY)\<close> with \<open>re.IGNORECASE\<close>, group 1\<close>
  "match_category s =
     (if ci_prefix ''Category:'' s then
        (let t = dropWhile is_space (drop 9 s)
         in if ci_prefix ''URGENT'' t then Some (take 6 t)
            else if ci_prefix ''IMPORTANT'' t then Some (take 9 t)
            else if ci_prefix ''LOW_PRIORITY'' t then Some (take 12 t)
            else None)
      else None)"

definition match_confidence :: "string \<Rightarrow> string option" where
  \<comment> \<open>\<open>Confidence:\s*(\d+)\<close>, group 1\<close>
  "match_confidence s =
     (if prefix ''Confidence:'' s then
        (let ds = takeWhile is_digit (dropWhile is_space (drop 11 s))
         in if ds = [] then None else Some ds)
      else None)"

definition match_rationale :: "string \<Rightarrow> string option" where
  \<comment> \<open>\<open>Rationale:\s*(.*)\<close>, group 1; \<open>\s*\<close> runs over line breaks, \<open>.*\<close> stops at one\<close>
  "match_rationale s =
     (if prefix ''Rationale:'' s then
        Some (takeWhile (\<lambda>c. c \<noteq> NL) (dropWhile is_space (drop 10 s)))
      else None)"

definition digits_value :: "string \<Rightarrow> int" where
  "digits_value ds = foldl (\<lambda>a c. 10 * a + (int (of_char c) - 48)) 0 ds"

definition py_int :: "string \<Rightarrow> py_error + int" where
  \<comment> \<open>\<open>int\<close> of a string of decimal digits, which raises \<open>ValueError\<close> beyond the
      interpreter's limit of 4300 digits\<close>
  "py_int ds = (if 4300 < length ds then Inl ValueError else Inr (digits_value ds))"

record classification =
  category :: string
  confidence :: int
  rationale :: string

definition parse_classification :: "string \<Rightarrow> py_error + classification" where
  \<comment> \<open>the part of \<open>categorize_email\<close> after the completion call; the conversion of the
      confidence is its only statement that can raise, and nothing catches it\<close>
  "parse_classification response =
     (let category_match = re_search match_category response;
          confidence_match = re_search match_confidence response;
          rationale_match = re_search match_rationale response;
          cat = (case category_match of Some g \<Rightarrow> map upper g | None \<Rightarrow> ''LOW_PRIORITY'')
      in case (case confidence_match of Some g \<Rightarrow> py_int g | None \<Rightarrow> Inr 0) of
           Inl err \<Rightarrow> Inl err
         | Inr conf \<Rightarrow>
             Inr \<lparr>category = cat,
                  confidence = conf,
                  rationale = (case rationale_match of Some g \<Rightarrow> strip g | None \<Rightarrow> [])\<rparr>)"

definition categorize_email ::
  "completion_service \<Rightarrow> string \<Rightarrow> string \<Rightarrow> string \<Rightarrow> py_error + classification" where
  "categorize_email svc subject body sender =
     parse_classification (generate svc (categorize_prompt subject body sender))"


subsection \<open>The specification's reading of the rationale\<close>


section \<open>Mailbox client\<close>

text \<open>
  What the provider returns is a parameter.  A message payload carries its headers, its
  list of parts when it is multipart, and the \<open>data\<close> of its own body; a part carries its
  MIME type and the \<open>data\<close> of its body.  \<open>data\<close> is the text in the provider's
  transport encoding (base64url), absent when the body has none.
\<close>

record part =
  mimeType :: string
  part_data :: "string option"

record payload =
  headers :: "(string \<times> string) list"
  parts :: "part list option"
  body_data :: "string option"

record email =
  msg_id :: string
  subject :: string
  sender :: string
  date :: string
  body :: string

text \<open>
  The provider's calls: listing with the full message of each entry, creating a draft
  (draft id and message id) and sending (message id and thread id).  \<open>Inl\<close> is the text
  of the exception a call raises.  The session is taken as established.  \<open>as_bytes\<close> is
  the standard library's flattening of the multipart message with the given headers and
  text: the raw message, or the text of the exception it raises (a header value with an
  embedded header line, for one).
\<close>

record services =
  completion :: completion_service
  list_messages :: "nat \<Rightarrow> (string \<times> payload) list"
  drafts_create :: "string \<Rightarrow> string \<Rightarrow> string \<Rightarrow> string + string \<times> string"
  messages_send :: "string \<Rightarrow> string \<Rightarrow> string \<Rightarrow> string + string \<times> string"
  as_bytes :: "(string \<times> string) list \<Rightarrow> string \<Rightarrow> string + string"
  user_email :: string
  now :: "nat \<Rightarrow> string"

fun get_body_from_parts :: "part list \<Rightarrow> string" where
  "get_body_from_parts [] = []"
| "get_body_from_parts (p # ps) =
     (if mimeType p = ''text/plain''
      then (case part_data p of Some d \<Rightarrow> d | None \<Rightarrow> []) @ get_body_from_parts ps
      else get_body_from_parts ps)"

definition get_body_from_payload :: "payload \<Rightarrow> string" where
  "get_body_from_payload pl = (case body_data pl of Some d \<Rightarrow> d | None \<Rightarrow> [])"

definition header_value :: "(string \<times> string) list \<Rightarrow> string \<Rightarrow> string \<Rightarrow> string" where
  \<comment> \<open>\<open>next((h['value'] for h in headers if h['name'] == name), default)\<close>\<close>
  "header_value hs name dflt =
     (case find (\<lambda>h. fst h = name) hs of Some h \<Rightarrow> snd h | None \<Rightarrow> dflt)"

definition fetch_emails :: "services \<Rightarrow> nat \<Rightarrow> email list" where
  "fetch_emails env limit =
     map (\<lambda>(mid, pl).
            \<lparr>msg_id = mid,
             subject = header_value (headers pl) ''Subject'' ''(No Subject)'',
             sender = header_value (headers pl) ''From'' ''(Unknown Sender)'',
             date = header_value (headers pl) ''Date'' ''(No Date)'',
             body = (case parts pl of
                       Some ps \<Rightarrow> get_body_from_parts ps
                     | None \<Rightarrow> get_body_from_payload pl)\<rparr>)
         (list_messages env limit)"

datatype send_result =
    Sent string string
  | Error string
  | Preview string string string

datatype draft_result =
    DraftCreated string string string
  | DraftError string

section \<open>Email processor\<close>

text \<open>
  \<open>processed_email\<close> is the dictionary \<open>{**email, 'category': ..., ...}\<close>; its added
  keys carry the prefix \<open>p_\<close>, those of the stored draft the prefix \<open>d_\<close>.
\<close>

record processed_email = email +
  p_category :: string
  p_confidence :: int
  p_rationale :: string
  draft_reply :: string
  draft_id :: "string option"
  processed_at :: string

record draft =
  d_email_id :: string
  d_subject :: string
  d_draft_reply :: string
  d_category :: string
  d_confidence :: int
  d_rationale :: string
  d_created_at :: string

text \<open>
  The state the processor works on: the rows of \<open>emails.csv\<close> (\<open>None\<close> while the file does
  not exist), the files \<open>draft_<id>.json\<close> of the drafts directory and the files
  \<open>sent/sent_<id>.json\<close> below it, each keyed by the identifier in its name, the calls
  made to the provider so far, and the number of clock readings.
\<close>

record state =
  emails_csv :: "processed_email list option"
  drafts :: "string \<rightharpoonup> draft"
  sent :: "string \<rightharpoonup> draft"
  send_calls :: "(string \<times> string \<times> string) list"
  draft_calls :: "(string \<times> string \<times> string) list"
  clock :: nat

record stats =
  total_emails :: nat
  categories :: "string \<rightharpoonup> nat"
  stats_processed_at :: string

definition read_clock :: "services \<Rightarrow> state \<Rightarrow> string \<times> state" where
  \<comment> \<open>\<open>datetime.now().isoformat()\<close>\<close>
  "read_clock env st = (now env (clock st), st\<lparr>clock := Suc (clock st)\<rparr>)"

definition send_email ::
  "services \<Rightarrow> state \<Rightarrow> string \<Rightarrow> string \<Rightarrow> string \<Rightarrow> (py_error + send_result) \<times> state" where
  \<comment> \<open>the message is built and flattened before the \<open>try\<close>: what that raises is not caught\<close>
  "send_email env st to subj text =
     (case as_bytes env [(''to'', to), (''subject'', subj)] text of
        Inl err \<Rightarrow> (Inl (MessageError err), st)
      | Inr raw \<Rightarrow>
          let st' = st\<lparr>send_calls := send_calls st @ [(to, subj, text)]\<rparr>
          in case messages_send env to subj text of
               Inr (mid, thread) \<Rightarrow> (Inr (Sent mid thread), st')
             | Inl e \<Rightarrow> (Inr (Error e), st'))"

definition create_draft ::
  "services \<Rightarrow> state \<Rightarrow> string \<Rightarrow> string \<Rightarrow> string \<Rightarrow> (py_error + draft_result) \<times> state" where
  "create_draft env st to subj text =
     (case as_bytes env [(''to'', to), (''from'', user_email env), (''subject'', subj)] text of
        Inl err \<Rightarrow> (Inl (MessageError err), st)
      | Inr raw \<Rightarrow>
          let st' = st\<lparr>draft_calls := draft_calls st @ [(to, subj, text)]\<rparr>
          in case drafts_create env to subj text of
               Inr (did, mid) \<Rightarrow> (Inr (DraftCreated did mid (user_email env)), st')
             | Inl e \<Rightarrow> (Inr (DraftError e), st'))"

definition save_email :: "state \<Rightarrow> processed_email \<Rightarrow> state" where
  \<comment> \<open>\<open>_save_email\<close>: append the row, creating the file with its header when absent\<close>
  "save_email st pe =
     (case emails_csv st of
        Some rows \<Rightarrow> st\<lparr>emails_csv := Some (rows @ [pe])\<rparr>
      | None \<Rightarrow> st\<lparr>emails_csv := Some [pe]\<rparr>)"

definition save_draft :: "state \<Rightarrow> processed_email \<Rightarrow> state" where
  \<comment> \<open>\<open>_save_draft\<close>\<close>
  "save_draft st pe =
     (let d = \<lparr>d_email_id = msg_id pe,
               d_subject = subject pe,
               d_draft_reply = draft_reply pe,
               d_category = p_category pe,
               d_confidence = p_confidence pe,
               d_rationale = p_rationale pe,
               d_created_at = processed_at pe\<rparr>
      in st\<lparr>drafts := (drafts st)(msg_id pe \<mapsto> d)\<rparr>)"

definition zero_categories :: "string \<rightharpoonup> nat" where
  "zero_categories = [''URGENT'' \<mapsto> 0, ''IMPORTANT'' \<mapsto> 0, ''LOW_PRIORITY'' \<mapsto> 0]"

definition process_email ::
  "services \<Rightarrow> email \<Rightarrow> processed_email list \<times> (string \<rightharpoonup> nat) \<Rightarrow> state \<Rightarrow>
   (py_error + processed_email list \<times> (string \<rightharpoonup> nat)) \<times> state" where
  \<comment> \<open>one turn of the loop of \<open>process_emails\<close>; an exception ends the turn and leaves the
      state as it is at that point\<close>
  "process_email env e acc st =
     (case acc of (processed_emails, cats) \<Rightarrow>
        case categorize_email (completion env) (subject e) (body e) (sender e) of
          Inl err \<Rightarrow> (Inl err, st)
        | Inr cat_result \<Rightarrow>
            let cat = category cat_result
            in case cats cat of
                 None \<Rightarrow> (Inl (KeyError cat), st)
               | Some n \<Rightarrow>
                   let cats' = cats(cat \<mapsto> n + 1);
                       reply = generate_reply (completion env) (subject e) (body e) cat;
                       cleaned_reply = clean_email_body reply
                   in case create_draft env st (sender e) (''Re: '' @ subject e) cleaned_reply of
                        (Inl err, st1) \<Rightarrow> (Inl err, st1)
                      | (Inr draft_result, st1) \<Rightarrow>
                          let (ts, st2) = read_clock env st1;
                              pe = \<lparr>msg_id = msg_id e, subject = subject e, sender = sender e,
                                    date = date e, body = body e,
                                    p_category = cat,
                                    p_confidence = confidence cat_result,
                                    p_rationale = rationale cat_result,
                                    draft_reply = cleaned_reply,
                                    draft_id = (case draft_result of
                                                  DraftCreated did mid addr \<Rightarrow> Some did
                                                | DraftError err \<Rightarrow> None),
                                    processed_at = ts\<rparr>
                          in (Inr (processed_emails @ [pe], cats'),
                              save_draft (save_email st2 pe) pe))"

fun process_loop ::
  "services \<Rightarrow> email list \<Rightarrow> processed_email list \<times> (string \<rightharpoonup> nat) \<Rightarrow> state \<Rightarrow>
   (py_error + processed_email list \<times> (string \<rightharpoonup> nat)) \<times> state" where
  "process_loop env [] acc st = (Inr acc, st)"
| "process_loop env (e # es) acc st =
     (case process_email env e acc st of
        (Inl err, st') \<Rightarrow> (Inl err, st')
      | (Inr acc', st') \<Rightarrow> process_loop env es acc' st')"

definition process_emails :: "services \<Rightarrow> nat \<Rightarrow> state \<Rightarrow> (py_error + stats) \<times> state" where
  "process_emails env limit st =
     (case process_loop env (fetch_emails env limit) ([], zero_categories) st of
        (Inl err, st') \<Rightarrow> (Inl err, st')
      | (Inr (processed_emails, cats), st') \<Rightarrow>
          let (ts, st'') = read_clock env st'
          in (Inr \<lparr>total_emails = length processed_emails, categories = cats,
                   stats_processed_at = ts\<rparr>, st''))"

definition send_drafted_email ::
  "services \<Rightarrow> state \<Rightarrow> string \<Rightarrow> string \<Rightarrow> bool \<Rightarrow> (py_error + send_result) \<times> state" where
  "send_drafted_email env st did recipient confirm =
     (case drafts st did of
        None \<Rightarrow> (Inr (Error ''Draft not found''), st)
      | Some d \<Rightarrow>
          let cleaned_body = clean_email_body (d_draft_reply d)
          in if \<not> confirm then (Inr (Preview recipient (d_subject d) cleaned_body), st)
             else
               (case send_email env st recipient (d_subject d) cleaned_body of
                  (Inr (Sent mid thread), st') \<Rightarrow>
                    (Inr (Sent mid thread),
                     st'\<lparr>drafts := (drafts st')(did := None), sent := (sent st')(did \<mapsto> d)\<rparr>)
                | (res, st') \<Rightarrow> (res, st')))"

definition stored_rows :: "state \<Rightarrow> processed_email list" where
  \<comment> \<open>the rows of \<open>emails.csv\<close>, none while the file does not exist\<close>
  "stored_rows st = (case emails_csv st of None \<Rightarrow> [] | Some rows \<Rightarrow> rows)"

definition value_counts :: "string list \<Rightarrow> (string \<rightharpoonup> nat)" where
  \<comment> \<open>\<open>Series.value_counts().to_dict()\<close>: one key for each value that occurs\<close>
  "value_counts xs = (\<lambda>k. if k \<in> set xs then Some (count_list xs k) else None)"

definition get_daily_stats :: "services \<Rightarrow> state \<Rightarrow> stats \<times> state" where
  "get_daily_stats env st =
     (case emails_csv st of
        None \<Rightarrow>
          (let (ts, st') = read_clock env st
           in (\<lparr>total_emails = 0, categories = zero_categories, stats_processed_at = ts\<rparr>, st'))
      | Some rows \<Rightarrow>
          (let cats = value_counts (map p_category rows);
               (ts, st') = read_clock env st
           in (\<lparr>total_emails = length rows, categories = cats, stats_processed_at = ts\<rparr>, st')))"


section \<open>Properties of the whitespace steps\<close>

lemma is_space_NL [simp]: "is_space NL"
  by (simp add: is_space_def NL_def)

lemma takeWhile_drop_le:
  "k \<le> length (takeWhile P xs) \<Longrightarrow> takeWhile P (drop k xs) = drop k (takeWhile P xs)"
proof (induction xs arbitrary: k)
  case Nil
  then show ?case by simp
next
  case (Cons x xs)
  then show ?case by (cases k) (auto split: if_splits)
qed

lemma dropWhile_drop_le:
  "k \<le> length (takeWhile P xs) \<Longrightarrow> dropWhile P (drop k xs) = dropWhile P xs"
proof (induction xs arbitrary: k)
  case Nil
  then show ?case by simp
next
  case (Cons x xs)
  then show ?case by (cases k) (auto split: if_splits)
qed

lemma last_newline_end_le: "last_newline_end ws \<le> length ws"
  by (simp add: last_newline_end_def)

lemma drop_last_newline_end:
  "drop (last_newline_end ws) ws = rev (takeWhile (\<lambda>c. c \<noteq> NL) (rev ws))"
proof -
  have "rev ws = takeWhile (\<lambda>c. c \<noteq> NL) (rev ws) @ dropWhile (\<lambda>c. c \<noteq> NL) (rev ws)"
    by simp
  then have "ws = rev (dropWhile (\<lambda>c. c \<noteq> NL) (rev ws)) @ rev (takeWhile (\<lambda>c. c \<noteq> NL) (rev ws))"
    by (metis rev_append rev_rev_ident)
  moreover have "length (rev (dropWhile (\<lambda>c. c \<noteq> NL) (rev ws))) = last_newline_end ws"
    unfolding last_newline_end_def
    by (metis length_rev length_append takeWhile_dropWhile_id add_diff_cancel_left')
  ultimately show ?thesis
    by (metis append_eq_conv_conj)
qed

lemma no_newline_after_last: "NL \<notin> set (drop (last_newline_end ws) ws)"
  unfolding drop_last_newline_end by (auto dest: set_takeWhileD)

lemma rest_no_newline:
  "NL \<notin> set (takeWhile is_space (drop (last_newline_end (takeWhile is_space cs)) cs))"
  by (simp add: takeWhile_drop_le last_newline_end_le no_newline_after_last)

lemma takeWhile_collapse_blank:
  "NL \<notin> set (takeWhile is_space r) \<Longrightarrow>
   takeWhile is_space (collapse_blank r) = takeWhile is_space r"
proof (induction r)
  case Nil
  then show ?case by simp
next
  case (Cons c cs)
  then show ?case by (cases "is_space c") auto
qed

lemma last_newline_end_single:
  "NL \<notin> set ws \<Longrightarrow> last_newline_end (NL # ws) = 1"
proof -
  assume "NL \<notin> set ws"
  then have "takeWhile (\<lambda>c. c \<noteq> NL) (rev ws @ [NL]) = rev ws"
    by (subst takeWhile_append2) auto
  then show ?thesis by (simp add: last_newline_end_def)
qed

lemma collapse_blank_idem: "collapse_blank (collapse_blank s) = collapse_blank s"
proof (induction s rule: collapse_blank.induct)
  case 1
  then show ?case by simp
next
  case (2 c cs)
  let ?ws = "takeWhile is_space cs"
  let ?rest = "drop (last_newline_end ?ws) cs"
  show ?case
  proof (cases "c = NL \<and> NL \<in> set ?ws")
    case True
    have nn: "NL \<notin> set (takeWhile is_space (collapse_blank ?rest))"
      by (simp add: takeWhile_collapse_blank rest_no_newline)
    have "collapse_blank (NL # NL # collapse_blank ?rest)
          = NL # NL # collapse_blank (collapse_blank ?rest)"
      using nn by (simp add: last_newline_end_single)
    with True 2 show ?thesis by simp
  next
    case False
    show ?thesis
    proof (cases "c = NL")
      case True
      with False have "NL \<notin> set ?ws" by simp
      then have "NL \<notin> set (takeWhile is_space (collapse_blank cs))"
        by (simp add: takeWhile_collapse_blank)
      with True False 2 show ?thesis by simp
    next
      case False
      with 2 show ?thesis by simp
    qed
  qed
qed

lemma lstrip_collapse_blank: "lstrip (collapse_blank s) = collapse_blank (lstrip s)"
proof (induction s rule: collapse_blank.induct)
  case 1
  then show ?case by (simp add: lstrip_def)
next
  case (2 c cs)
  let ?ws = "takeWhile is_space cs"
  let ?rest = "drop (last_newline_end ?ws) cs"
  show ?case
  proof (cases "c = NL \<and> NL \<in> set ?ws")
    case True
    have "lstrip ?rest = lstrip cs"
      by (simp add: lstrip_def dropWhile_drop_le last_newline_end_le)
    with True 2 show ?thesis by (simp add: lstrip_def)
  next
    case False
    with 2 show ?thesis by (cases "is_space c") (auto simp: lstrip_def)
  qed
qed


lemma rstrip_Cons:
  "rstrip (c # cs) = (if (\<forall>x\<in>set (c # cs). is_space x) then [] else c # rstrip cs)"
  by (auto simp: rstrip_def dropWhile_append)

lemma rstrip_Nil [simp]: "rstrip [] = []"
  by (simp add: rstrip_def)

lemma set_collapse_blank_subset: "set (collapse_blank s) \<subseteq> set s"
proof (induction s rule: collapse_blank.induct)
  case 1
  then show ?case by simp
next
  case (2 c cs)
  show ?case
  proof (cases "c = NL \<and> NL \<in> set (takeWhile is_space cs)")
    case True
    with 2 have "set (collapse_blank (drop (last_newline_end (takeWhile is_space cs)) cs)) \<subseteq> set cs"
      using set_drop_subset by fastforce
    with True show ?thesis by auto
  next
    case False
    with 2 show ?thesis by auto
  qed
qed

lemma nonspace_drop_prefix:
  "x \<in> set cs \<Longrightarrow> \<not> is_space x \<Longrightarrow> k \<le> length (takeWhile is_space cs) \<Longrightarrow> x \<in> set (drop k cs)"
proof -
  assume x: "x \<in> set cs" and ns: "\<not> is_space x" and k: "k \<le> length (takeWhile is_space cs)"
  have "cs = take k cs @ drop k cs" by simp
  moreover have "take k cs = take k (takeWhile is_space cs)"
    using k by (metis takeWhile_eq_take take_take min.absorb1 min.commute)
  then have "\<forall>y\<in>set (take k cs). is_space y"
    by (metis in_set_takeD set_takeWhileD)
  ultimately show ?thesis using x ns
    by (metis Un_iff set_append)
qed

lemma nonspace_collapse_blank:
  "x \<in> set s \<Longrightarrow> \<not> is_space x \<Longrightarrow> x \<in> set (collapse_blank s)"
proof (induction s rule: collapse_blank.induct)
  case 1
  then show ?case by simp
next
  case (2 c cs)
  show ?case
  proof (cases "c = NL \<and> NL \<in> set (takeWhile is_space cs)")
    case True
    with 2 have "x \<in> set cs" by auto
    then have "x \<in> set (drop (last_newline_end (takeWhile is_space cs)) cs)"
      using 2 by (simp add: nonspace_drop_prefix last_newline_end_le)
    with True 2 show ?thesis by simp
  next
    case False
    with 2 show ?thesis by auto
  qed
qed

lemma all_space_collapse_blank:
  "(\<forall>x\<in>set (collapse_blank s). is_space x) = (\<forall>x\<in>set s. is_space x)"
  using set_collapse_blank_subset nonspace_collapse_blank by blast

lemma takeWhile_rstrip:
  "\<not> (\<forall>x\<in>set cs. is_space x) \<Longrightarrow> takeWhile is_space (rstrip cs) = takeWhile is_space cs"
proof (induction cs)
  case Nil
  then show ?case by simp
next
  case (Cons c cs)
  then show ?case by (cases "is_space c") (auto simp: rstrip_Cons)
qed

lemma drop_rstrip:
  "\<not> (\<forall>x\<in>set cs. is_space x) \<Longrightarrow> k \<le> length (takeWhile is_space cs) \<Longrightarrow>
   drop k (rstrip cs) = rstrip (drop k cs)"
proof (induction cs arbitrary: k)
  case Nil
  then show ?case by simp
next
  case (Cons c cs)
  show ?case
  proof (cases k)
    case 0
    then show ?thesis by simp
  next
    case (Suc j)
    with Cons.prems have sp: "is_space c" and j: "j \<le> length (takeWhile is_space cs)"
      by (auto split: if_splits)
    from sp Cons.prems have ncs: "\<not> (\<forall>x\<in>set cs. is_space x)" by auto
    with Cons.IH j have "drop j (rstrip cs) = rstrip (drop j cs)" by simp
    moreover from ncs have "rstrip (c # cs) = c # rstrip cs" by (simp add: rstrip_Cons)
    ultimately show ?thesis using Suc by simp
  qed
qed

lemma rstrip_collapse_blank: "rstrip (collapse_blank s) = collapse_blank (rstrip s)"
proof (induction s rule: collapse_blank.induct)
  case 1
  then show ?case by simp
next
  case (2 c cs)
  let ?ws = "takeWhile is_space cs"
  let ?k = "last_newline_end ?ws"
  let ?rest = "drop ?k cs"
  show ?case
  proof (cases "\<forall>x\<in>set (c # cs). is_space x")
    case True
    then have "\<forall>x\<in>set (collapse_blank (c # cs)). is_space x"
      by (metis all_space_collapse_blank)
    then have "rstrip (collapse_blank (c # cs)) = []"
      by (simp add: rstrip_def)
    moreover from True have "rstrip (c # cs) = []"
      by (simp add: rstrip_Cons)
    ultimately show ?thesis by simp
  next
    case nall: False
    show ?thesis
    proof (cases "c = NL \<and> NL \<in> set ?ws")
      case True
      with nall have ncs: "\<not> (\<forall>x\<in>set cs. is_space x)" by auto
      have nrest: "\<not> (\<forall>x\<in>set ?rest. is_space x)"
        using ncs nonspace_drop_prefix [OF _ _ last_newline_end_le] by blast
      then have "\<not> (\<forall>x\<in>set (collapse_blank ?rest). is_space x)"
        by (metis all_space_collapse_blank)
      then have lhs: "rstrip (collapse_blank (c # cs)) = NL # NL # rstrip (collapse_blank ?rest)"
        using True by (simp add: rstrip_Cons)
      have "rstrip (c # cs) = NL # rstrip cs"
        using True nall by (simp add: rstrip_Cons)
      then have "collapse_blank (rstrip (c # cs)) = NL # NL # collapse_blank (drop ?k (rstrip cs))"
        using True ncs by (simp add: takeWhile_rstrip)
      also have "drop ?k (rstrip cs) = rstrip ?rest"
        using ncs by (simp add: drop_rstrip last_newline_end_le)
      finally show ?thesis using lhs 2(1) [OF True] by simp
    next
      case False
      have ih: "rstrip (collapse_blank cs) = collapse_blank (rstrip cs)"
        using 2(2) [OF False] .
      have cb: "collapse_blank (c # cs) = c # collapse_blank cs"
        using False by auto
      show ?thesis
      proof (cases "\<forall>x\<in>set cs. is_space x")
        case True
        with nall have nc: "\<not> is_space c" by simp
        then have "c \<noteq> NL" by auto
        moreover from True have "rstrip cs = []" by (simp add: rstrip_def)
        moreover from True have "rstrip (collapse_blank cs) = []"
          using ih calculation by simp
        moreover from \<open>c \<noteq> NL\<close> have "collapse_blank [c] = [c]" by simp
        ultimately show ?thesis using nc
          by (simp add: cb rstrip_Cons del: collapse_blank.simps)
      next
        case ncs: False
        then have "\<not> (\<forall>x\<in>set (collapse_blank cs). is_space x)"
          by (metis all_space_collapse_blank)
        then have "rstrip (collapse_blank (c # cs)) = c # rstrip (collapse_blank cs)"
          by (simp add: cb rstrip_Cons del: collapse_blank.simps)
        moreover have "rstrip (c # cs) = c # rstrip cs"
          using ncs by (simp add: rstrip_Cons)
        moreover have "collapse_blank (c # rstrip cs) = c # collapse_blank (rstrip cs)"
          using False ncs by (auto simp: takeWhile_rstrip)
        ultimately show ?thesis using ih by simp
      qed
    qed
  qed
qed

lemma strip_collapse_blank: "strip (collapse_blank s) = collapse_blank (strip s)"
  by (simp add: strip_def lstrip_collapse_blank rstrip_collapse_blank)

lemma lstrip_rstrip: "lstrip (rstrip s) = rstrip (lstrip s)"
proof (induction s)
  case Nil
  then show ?case by (simp add: lstrip_def)
next
  case (Cons c cs)
  show ?case
  proof (cases "\<forall>x\<in>set (c # cs). is_space x")
    case True
    then have "rstrip (c # cs) = []" and "lstrip (c # cs) = []"
      by (simp_all add: rstrip_Cons lstrip_def)
    then show ?thesis by (simp add: lstrip_def)
  next
    case False
    then show ?thesis using Cons
      by (cases "is_space c") (auto simp: rstrip_Cons lstrip_def)
  qed
qed

lemma lstrip_idem: "lstrip (lstrip s) = lstrip s"
  by (simp add: lstrip_def dropWhile_idem)

lemma rstrip_idem: "rstrip (rstrip s) = rstrip s"
  by (simp add: rstrip_def dropWhile_idem)

lemma strip_idem: "strip (strip s) = strip s"
  by (simp add: strip_def lstrip_rstrip lstrip_idem rstrip_idem)

lemma strip_collapse_twice:
  "strip (collapse_blank (strip (collapse_blank s))) = strip (collapse_blank s)"
  by (simp add: strip_collapse_blank [symmetric] collapse_blank_idem strip_idem)

lemma clean_email_body_steps:
  "clean_email_body x = strip (collapse_blank (remove_artifacts x))"
  by (simp add: clean_email_body_def remove_artifacts_def Let_def)

section \<open>Properties of the classification parser\<close>

lemma upper_lower: "upper (lower c) = upper c"
proof -
  have "char_of (of_char c :: nat) = c" by simp
  then show ?thesis
    by (auto simp add: upper_def lower_def Let_def)
qed



lemma lower_URGENT: "map lower ''URGENT'' = ''urgent''" by code_simp
lemma lower_IMPORTANT: "map lower ''IMPORTANT'' = ''important''" by code_simp
lemma lower_LOW_PRIORITY: "map lower ''LOW_PRIORITY'' = ''low_priority''" by code_simp
lemma upper_urgent: "map upper ''urgent'' = ''URGENT''" by code_simp
lemma upper_important: "map upper ''important'' = ''IMPORTANT''" by code_simp
lemma upper_low_priority: "map upper ''low_priority'' = ''LOW_PRIORITY''" by code_simp




lemma re_search_none:
  "\<forall>k\<le>length r. m (drop k r) = None \<Longrightarrow> re_search m r = None"
proof (induction r)
  case Nil
  then show ?case by simp
next
  case (Cons c cs)
  from Cons.prems have "m (drop 0 (c # cs)) = None" by blast
  then have here: "m (c # cs) = None" by simp
  have "\<forall>k\<le>length cs. m (drop k cs) = None"
  proof (intro allI impI)
    fix k assume "k \<le> length cs"
    then have "Suc k \<le> length (c # cs)" by simp
    with Cons.prems have "m (drop (Suc k) (c # cs)) = None" by blast
    then show "m (drop k cs) = None" by simp
  qed
  with Cons.IH here show ?case by simp
qed

lemma re_search_some:
  "re_search m r = Some g \<Longrightarrow> \<exists>k\<le>length r. m (drop k r) = Some g"
proof (induction r)
  case Nil
  then show ?case by simp
next
  case (Cons c cs)
  show ?case
  proof (cases "m (c # cs)")
    case None
    with Cons obtain k where "k \<le> length cs" "m (drop k cs) = Some g" by auto
    then have "Suc k \<le> length (c # cs)" "m (drop (Suc k) (c # cs)) = Some g" by simp_all
    then show ?thesis by blast
  next
    case (Some a)
    with Cons.prems have "m (drop 0 (c # cs)) = Some g" by simp
    then show ?thesis by blast
  qed
qed




lemma ci_prefix_URGENT: "ci_prefix ''URGENT'' s = prefix ''urgent'' (map lower s)"
  by (simp only: ci_prefix_def lower_URGENT)

lemma ci_prefix_IMPORTANT: "ci_prefix ''IMPORTANT'' s = prefix ''important'' (map lower s)"
  by (simp only: ci_prefix_def lower_IMPORTANT)

lemma ci_prefix_LOW_PRIORITY: "ci_prefix ''LOW_PRIORITY'' s = prefix ''low_priority'' (map lower s)"
  by (simp only: ci_prefix_def lower_LOW_PRIORITY)





lemma match_category_token:
  assumes "match_category s = Some g"
  shows "map upper g \<in> {''URGENT'', ''IMPORTANT'', ''LOW_PRIORITY''}"
proof -
  have up: "map upper g = map upper (map lower g)" for g
    by (simp add: upper_lower)
  have tk: "prefix p (map lower t) \<Longrightarrow> length p = n \<Longrightarrow> map lower (take n t) = p" for p t n
    by (auto simp: prefix_def take_map [symmetric] simp del: take_map)
  let ?t = "dropWhile is_space (drop 9 s)"
  from assms consider "ci_prefix ''URGENT'' ?t" "g = take 6 ?t"
    | "ci_prefix ''IMPORTANT'' ?t" "g = take 9 ?t"
    | "ci_prefix ''LOW_PRIORITY'' ?t" "g = take 12 ?t"
    by (auto simp: match_category_def Let_def split: if_splits)
  then show ?thesis
  proof cases
    case 1
    with tk [of "''urgent''" ?t 6] have "map lower g = ''urgent''"
      by (simp add: ci_prefix_URGENT)
    then have "map upper g = ''URGENT''"
      using up [of g] by (simp only: upper_urgent)
    then show ?thesis by simp
  next
    case 2
    with tk [of "''important''" ?t 9] have "map lower g = ''important''"
      by (simp add: ci_prefix_IMPORTANT)
    then have "map upper g = ''IMPORTANT''"
      using up [of g] by (simp only: upper_important)
    then show ?thesis by simp
  next
    case 3
    with tk [of "''low_priority''" ?t 12] have "map lower g = ''low_priority''"
      by (simp add: ci_prefix_LOW_PRIORITY)
    then have "map upper g = ''LOW_PRIORITY''"
      using up [of g] by (simp only: upper_low_priority)
    then show ?thesis by simp
  qed
qed

lemma category_parse:
  "parse_classification r = Inr c \<Longrightarrow>
   category c = (case re_search match_category r of Some g \<Rightarrow> map upper g | None \<Rightarrow> ''LOW_PRIORITY'')"
  by (auto simp: parse_classification_def Let_def split: sum.splits)

lemma confidence_parse:
  "parse_classification r = Inr c \<Longrightarrow>
   (case re_search match_confidence r of
      Some g \<Rightarrow> length g \<le> 4300 \<and> confidence c = digits_value g
    | None \<Rightarrow> confidence c = 0)"
  by (auto simp: parse_classification_def Let_def py_int_def split: sum.splits option.splits if_splits)



lemma parse_classification_raises:
  "re_search match_confidence r = Some g \<Longrightarrow> 4300 < length g \<Longrightarrow>
   parse_classification r = Inl ValueError"
  by (simp add: parse_classification_def Let_def py_int_def)

lemma category_enum:
  assumes "parse_classification r = Inr c"
  shows "category c \<in> {''URGENT'', ''IMPORTANT'', ''LOW_PRIORITY''}"
proof (cases "re_search match_category r")
  case None
  with category_parse [OF assms] show ?thesis by simp
next
  case (Some g)
  from re_search_some [OF Some] obtain k where "match_category (drop k r) = Some g"
    by blast
  then have "map upper g \<in> {''URGENT'', ''IMPORTANT'', ''LOW_PRIORITY''}"
    by (rule match_category_token)
  with Some category_parse [OF assms] show ?thesis by simp
qed

lemma digits_value_foldl_nonneg:
  "\<forall>c\<in>set ds. is_digit c \<Longrightarrow> 0 \<le> a \<Longrightarrow>
   0 \<le> foldl (\<lambda>a c. 10 * a + (int (of_char c) - 48)) a ds"
proof (induction ds arbitrary: a)
  case Nil
  then show ?case by simp
next
  case (Cons d ds)
  from Cons.prems have "is_digit d" by simp
  then have "48 \<le> (of_char d :: nat)" by (simp add: is_digit_def Let_def)
  then have "0 \<le> 10 * a + (int (of_char d) - 48)" using Cons.prems by simp
  moreover from Cons.prems have "\<forall>c\<in>set ds. is_digit c" by simp
  ultimately show ?case using Cons.IH by simp
qed

lemma match_confidence_digits:
  "match_confidence s = Some ds \<Longrightarrow> \<forall>c\<in>set ds. is_digit c"
  by (auto simp: match_confidence_def Let_def split: if_splits dest: set_takeWhileD)

lemma confidence_nonneg:
  assumes "parse_classification r = Inr c"
  shows "0 \<le> confidence c"
proof (cases "re_search match_confidence r")
  case None
  with confidence_parse [OF assms] show ?thesis by simp
next
  case (Some ds)
  from re_search_some [OF Some] obtain k where "match_confidence (drop k r) = Some ds"
    by blast
  then have "\<forall>c\<in>set ds. is_digit c" by (rule match_confidence_digits)
  then have "0 \<le> digits_value ds"
    unfolding digits_value_def by (rule digits_value_foldl_nonneg) simp
  with Some confidence_parse [OF assms] show ?thesis by simp
qed

lemma not_contains_suffix:
  "\<not> contains pat r \<Longrightarrow> \<not> prefix pat (drop k r)"
proof (induction r arbitrary: k)
  case Nil
  then show ?case by simp
next
  case (Cons c cs)
  then show ?case by (cases k) auto
qed

lemma re_search_absent_label:
  assumes "\<And>s. m s \<noteq> None \<Longrightarrow> prefix pat s" and "\<not> contains pat r"
  shows "re_search m r = None"
proof (rule re_search_none, intro allI impI)
  fix k
  from assms(2) have "\<not> prefix pat (drop k r)" by (rule not_contains_suffix)
  with assms(1) show "m (drop k r) = None" by blast
qed

lemma confidence_absent:
  "\<not> contains ''Confidence:'' r \<Longrightarrow> re_search match_confidence r = None"
  by (rule re_search_absent_label [where pat = "''Confidence:''"])
     (auto simp: match_confidence_def split: if_splits)


lemma category_absent:
  "\<not> contains_ci ''Category:'' r \<Longrightarrow> re_search match_category r = None"
proof (rule re_search_none, intro allI impI)
  fix k
  assume "\<not> contains_ci ''Category:'' r"
  then have "\<not> prefix (map lower ''Category:'') (drop k (map lower r))"
    unfolding contains_ci_def by (rule not_contains_suffix)
  then have "\<not> ci_prefix ''Category:'' (drop k r)"
    by (metis ci_prefix_def drop_map)
  then show "match_category (drop k r) = None"
    by (simp add: match_category_def)
qed

section \<open>The response cleaner is not idempotent (C1)\<close>

text \<open>
  C1 claims \<open>clean_email_body (clean_email_body x) = clean_email_body x\<close> for every text.
  A reply that opens with a thinking block followed by a space and a meta-narration
  opener refutes it: the first pass removes the block, leaves the line because it starts
  with the space, and trims the space; the second pass then removes the whole line.
\<close>

theorem clean_email_body_not_idempotent:
  "clean_email_body (clean_email_body ''<think>plan</think> Let me know if this works.'')
   \<noteq> clean_email_body ''<think>plan</think> Let me know if this works.''"
  by code_simp

text \<open>
  C1, amended: cleaning is idempotent on every text whose cleaned form holds nothing that
  the removing steps (thinking blocks, opener lines, thinking-process lines, metadata
  lines) would still remove; on such a text the second pass only repeats the blank-line
  collapse and the trim, which change nothing.
\<close>

theorem clean_email_body_idempotent_when_artifact_free:
  assumes "remove_artifacts (clean_email_body x) = clean_email_body x"
  shows "clean_email_body (clean_email_body x) = clean_email_body x"
proof -
  have "clean_email_body (clean_email_body x)
        = strip (collapse_blank (clean_email_body x))"
    using assms by (simp add: clean_email_body_steps)
  also have "\<dots> = strip (collapse_blank (strip (collapse_blank (remove_artifacts x))))"
    by (simp add: clean_email_body_steps)
  also have "\<dots> = strip (collapse_blank (remove_artifacts x))"
    by (rule strip_collapse_twice)
  finally show ?thesis by (simp add: clean_email_body_steps)
qed

theorem clean_email_body_idempotent_witness:
  "remove_artifacts (clean_email_body
      (''<think>reasoning...</think>Here'' @ [CHR 0x27] @ ''s the email.\<newline>Dear Sam,\<newline>\<newline>Thanks.\<newline>\<newline>Best,\<newline>Alex''))
   = clean_email_body
      (''<think>reasoning...</think>Here'' @ [CHR 0x27] @ ''s the email.\<newline>Dear Sam,\<newline>\<newline>Thanks.\<newline>\<newline>Best,\<newline>Alex'')
   \<and> clean_email_body (clean_email_body
      (''<think>reasoning...</think>Here'' @ [CHR 0x27] @ ''s the email.\<newline>Dear Sam,\<newline>\<newline>Thanks.\<newline>\<newline>Best,\<newline>Alex''))
   = ''Dear Sam,\<newline>\<newline>Thanks.\<newline>\<newline>Best,\<newline>Alex''"
proof -
  let ?x = "''<think>reasoning...</think>Here'' @ [CHR 0x27] @ ''s the email.\<newline>Dear Sam,\<newline>\<newline>Thanks.\<newline>\<newline>Best,\<newline>Alex''"
  have h: "remove_artifacts (clean_email_body ?x) = clean_email_body ?x"
    by code_simp
  have v: "clean_email_body ?x = ''Dear Sam,\<newline>\<newline>Thanks.\<newline>\<newline>Best,\<newline>Alex''"
    by code_simp
  from clean_email_body_idempotent_when_artifact_free [OF h] h v show ?thesis
    by simp
qed

section \<open>Parsing the classification (C2)\<close>











section \<open>A response without a category (C3)\<close>




section \<open>The completion call (C7)\<close>

text \<open>
  C7 claims that on success the answer is returned with the echoed prompt prefix stripped
  and trimmed.  The code splits the answer at the prompt and keeps the last piece: when
  the service echoes the prompt, starts its answer with \<open>Hi\<close> and repeats the prompt
  before \<open>Bye\<close>, the reply is \<open>Bye\<close>, although stripping the echoed prefix leaves the
  text from \<open>Hi\<close> on.
\<close>

theorem generate_drops_text_before_last_prompt:
  "generate_reply (\<lambda>p. Inr (p @ ''Hi '' @ p @ ''Bye'')) ''s'' ''b'' ''URGENT'' = ''Bye''
   \<and> prefix (reply_prompt ''s'' ''b'' ''URGENT'')
        (reply_prompt ''s'' ''b'' ''URGENT'' @ ''Hi '' @ reply_prompt ''s'' ''b'' ''URGENT'' @ ''Bye'')"
  by code_simp

end
